theory Spec2Isabelle
  imports Main "HOL-Library.Word"
begin

section \<open>Field projection over paginated results (main.go)\<close>

text \<open>
  The program selects named fields out of the records of a paginated \<open>Result[T]\<close>.
  It inspects the record type \<open>T\<close> and the records through Go's \<open>reflect\<close> package, so
  the embedding carries what \<open>reflect\<close> reports: the kind of a type, the declared fields
  of a struct type with their names, package paths and \<open>json\<close> tags, and the dynamic type
  of a value. The type parameter \<open>T\<close> is an explicit argument of the functions that are
  generic in the source.
\<close>

subsection \<open>Types and values as reflect sees them\<close>

text \<open>The kinds of \<open>reflect.Kind\<close> that the types below have.\<close>

datatype kind = Struct | Map | Interface | Pointer | Slice | Int64 | String

text \<open>
  A declared struct field, as \<open>reflect.StructField\<close> gives it: \<open>Name\<close>, \<open>PkgPath\<close> (empty
  exactly for an exported field) and \<open>TagJson\<close>, the value of \<open>Tag.Get("json")\<close> (empty when
  the field has no such tag).
\<close>

record StructField =
  Name :: string
  PkgPath :: string
  TagJson :: string

definition IsExported :: "StructField \<Rightarrow> bool" where
  "IsExported f = (PkgPath f = [])"

text \<open>
  The types a payload element may have. \<open>TMap\<close> is a map type with string keys (for such
  keys \<open>key.String()\<close> at line 136 is the key itself); \<open>TInterface\<close> is any interface type,
  such as \<open>any\<close>.
\<close>

datatype gotype =
    TStruct "StructField list"
  | TMap
  | TInterface
  | TPointer gotype
  | TSlice gotype
  | TInt64
  | TString

fun Kind :: "gotype \<Rightarrow> kind" where
  "Kind (TStruct fs) = Struct"
| "Kind TMap = Map"
| "Kind TInterface = Interface"
| "Kind (TPointer t) = Pointer"
| "Kind (TSlice t) = Slice"
| "Kind TInt64 = Int64"
| "Kind TString = String"

text \<open>
  What one slot of the payload holds at run time. A struct value lists its declared
  fields with their values, in declaration order; a map value lists its entries, one
  per key; \<open>NilInterface\<close> is the nil value of an interface type; every other value is
  represented by its type alone, since the program never looks inside it. The type
  \<open>'v\<close> stands for the values that \<open>Value.Interface()\<close> hands out.
\<close>

datatype 'v govalue =
    NilInterface
  | StructVal "(StructField \<times> 'v) list"
  | MapVal "(string \<times> 'v) list"
  | OtherVal gotype

text \<open>\<open>reflect.TypeOf\<close>: the dynamic type, and \<open>None\<close> (a nil \<open>Type\<close>) for a nil interface.\<close>

fun TypeOf :: "'v govalue \<Rightarrow> gotype option" where
  "TypeOf NilInterface = None"
| "TypeOf (StructVal fvs) = Some (TStruct (map fst fvs))"
| "TypeOf (MapVal kvs) = Some TMap"
| "TypeOf (OtherVal t) = Some t"

text \<open>
  The zero value \<open>var dummy T\<close> of line 72 has dynamic type \<open>T\<close>, except that the zero
  value of an interface type is the nil interface.
\<close>

definition TypeOfZero :: "gotype \<Rightarrow> gotype option" where
  "TypeOfZero T = (if Kind T = Interface then None else Some T)"

text \<open>
  A value that a slot of static type \<open>T\<close> can hold: any value for an interface type,
  a value of exactly that type otherwise.
\<close>

fun has_type :: "gotype \<Rightarrow> 'v govalue \<Rightarrow> bool" where
  "has_type TInterface v = (case v of OtherVal t \<Rightarrow> Kind t \<notin> {Struct, Map, Interface} | _ \<Rightarrow> True)"
| "has_type (TStruct fs) v = (case v of StructVal fvs \<Rightarrow> map fst fvs = fs | _ \<Rightarrow> False)"
| "has_type TMap v = (case v of MapVal kvs \<Rightarrow> distinct (map fst kvs) | _ \<Rightarrow> False)"
| "has_type T v = (v = OtherVal T)"

text \<open>The run-time panics the program can raise; a function that may panic returns a sum.\<close>

datatype panic =
    NilPointerDereference
  | InterfaceOfUnexportedField
  | CallOnWrongKind
  | SliceBoundsOutOfRange

record 'a Result =
  Page :: "64 word"
  RPP :: "64 word"
  Payload :: "'a list option"

text \<open>A slice is \<open>None\<close> when it is nil. Its elements, and \<open>len\<close>: a nil slice has none.\<close>

definition elems :: "'a list option \<Rightarrow> 'a list" where
  "elems s = (case s of None \<Rightarrow> [] | Some xs \<Rightarrow> xs)"

definition len :: "'a list option \<Rightarrow> nat" where
  "len s = length (elems s)"

subsection \<open>Sanitized fields (lines 48--66)\<close>

type_synonym sanitizedField = "string \<times> string"

definition snake :: "sanitizedField \<Rightarrow> string" where
  "snake s = fst s"

definition pascal :: "sanitizedField \<Rightarrow> string" where
  "pascal s = snd s"

definition contains :: "sanitizedField list \<Rightarrow> string \<Rightarrow> bool" where
  "contains haystack needle = list_ex (\<lambda>s. needle = snake s) haystack"

subsection \<open>String helpers of the standard library\<close>

text \<open>
  \<open>strings.Trim(s, cutset)\<close> removes the leading and the trailing characters of \<open>s\<close> that
  occur in \<open>cutset\<close>. Every cutset of the program is ASCII, so trimming bytes and
  trimming code points agree.
\<close>

definition Trim :: "string \<Rightarrow> string \<Rightarrow> string" where
  "Trim s cutset =
     rev (dropWhile (\<lambda>c. c \<in> set cutset) (rev (dropWhile (\<lambda>c. c \<in> set cutset) s)))"

text \<open>The cutset of lines 80 and 97: newline, bell, backspace, form feed, carriage
  return, tab, vertical tab and space.\<close>

definition cutset :: string where
  "cutset = [CHR 0x0A, CHR 0x07, CHR 0x08, CHR 0x0C, CHR 0x0D, CHR 0x09, CHR 0x0B, CHR '' '']"

text \<open>\<open>strings.Split(s, ",")[0]\<close>: the part of \<open>s\<close> before its first comma (all of \<open>s\<close>
  when it has none; the split never yields an empty slice).\<close>

definition SplitComma0 :: "string \<Rightarrow> string" where
  "SplitComma0 s = takeWhile (\<lambda>c. c \<noteq> CHR '','') s"

text \<open>Line 87: the external name that a struct field's \<open>json\<close> tag gives it.\<close>

definition tagValue :: "StructField \<Rightarrow> string" where
  "tagValue record = Trim (SplitComma0 (TagJson record)) '' ''"

subsection \<open>sanitizeFields (lines 71--106)\<close>

text \<open>The inner loop of lines 84--93 over the declared fields, for one trimmed name.\<close>

fun scanFields :: "StructField list \<Rightarrow> string \<Rightarrow> sanitizedField list \<Rightarrow> sanitizedField list" where
  "scanFields [] field sanitizedFields = sanitizedFields"
| "scanFields (record # rest) field sanitizedFields =
     (let sanitized = (tagValue record, Name record) in
      if snake sanitized = field \<and> \<not> contains sanitizedFields (snake sanitized)
      then scanFields rest field (sanitizedFields @ [sanitized])
      else scanFields rest field sanitizedFields)"

text \<open>The loop of lines 79--94 over the requested names.\<close>

fun sanitizeStruct :: "StructField list \<Rightarrow> string list \<Rightarrow> sanitizedField list \<Rightarrow> sanitizedField list" where
  "sanitizeStruct fs [] sanitizedFields = sanitizedFields"
| "sanitizeStruct fs (raw # rest) sanitizedFields =
     (let field = Trim raw cutset in
      if field = [] then sanitizeStruct fs rest sanitizedFields
      else sanitizeStruct fs rest (scanFields fs field sanitizedFields))"

text \<open>The loop of lines 96--103: the second component stays the zero value, the empty
  string.\<close>

fun sanitizeMap :: "string list \<Rightarrow> sanitizedField list \<Rightarrow> sanitizedField list" where
  "sanitizeMap [] sanitizedFields = sanitizedFields"
| "sanitizeMap (raw # rest) sanitizedFields =
     (let key = Trim raw cutset in
      if key \<noteq> [] \<and> \<not> contains sanitizedFields key
      then sanitizeMap rest (sanitizedFields @ [(key, [])])
      else sanitizeMap rest sanitizedFields)"

text \<open>
  \<open>sanitizeFields[T]\<close>. \<open>reflect.TypeOf(dummy)\<close> is nil when \<open>T\<close> is an interface type, and
  \<open>t.Kind()\<close> on it is a nil pointer dereference.
\<close>

definition sanitizeFields :: "gotype \<Rightarrow> string list \<Rightarrow> panic + sanitizedField list" where
  "sanitizeFields T fields' =
     (case TypeOfZero T of
        None \<Rightarrow> Inl NilPointerDereference
      | Some t \<Rightarrow>
          (case t of
             TStruct fs \<Rightarrow> Inr (sanitizeStruct fs fields' [])
           | TMap \<Rightarrow> Inr (sanitizeMap fields' [])
           | _ \<Rightarrow> Inr []))"

subsection \<open>computeDelta (lines 108--120)\<close>

text \<open>
  The payload size is a slice length. Its conversion to \<open>float64\<close> is monotone and exact
  up to \<open>2^53\<close>, and \<open>math.Pow(10, k)\<close> is exactly 100, 1000 and 10000, so the comparisons
  are those of the integers.
\<close>

definition computeDelta :: "nat \<Rightarrow> nat" where
  "computeDelta payloadSize =
     (if payloadSize \<le> 1 \<or> payloadSize \<le> 100 then 1
      else if payloadSize \<le> 1000 then 2
      else if payloadSize \<le> 10000 then 3
      else 4)"

subsection \<open>doTransform (lines 122--144)\<close>

text \<open>
  \<open>Value.FieldByName\<close> on a struct value: the first declared field of that name, or
  nothing (an invalid \<open>Value\<close>).
\<close>

definition FieldByName :: "(StructField \<times> 'v) list \<Rightarrow> string \<Rightarrow> (StructField \<times> 'v) option" where
  "FieldByName fvs name = find (\<lambda>fv. Name (fst fv) = name) fvs"

text \<open>Lines 134--139: the loop over the keys of one map record, for one field.\<close>

fun scanKeys :: "(string \<times> 'v) list \<Rightarrow> sanitizedField \<Rightarrow> (string \<rightharpoonup> 'v) \<Rightarrow> (string \<rightharpoonup> 'v)" where
  "scanKeys [] field entryFields = entryFields"
| "scanKeys ((key, v) # rest) field entryFields =
     (if snake field = key then scanKeys rest field (entryFields(snake field \<mapsto> v))
      else scanKeys rest field entryFields)"

text \<open>
  Lines 128--140, the body of the loop over the fields for one record. \<open>FieldByName\<close> and
  \<open>MapKeys\<close> panic on a value of another kind, and \<open>Interface()\<close> panics on a value
  obtained from an unexported field.
\<close>

definition transformField :: "kind \<Rightarrow> 'v govalue \<Rightarrow> sanitizedField \<Rightarrow> (string \<rightharpoonup> 'v) \<Rightarrow> panic + (string \<rightharpoonup> 'v)" where
  "transformField kind entry field entryFields =
     (if kind = Struct then
        (case entry of
           StructVal fvs \<Rightarrow>
             (case FieldByName fvs (pascal field) of
                None \<Rightarrow> Inr entryFields
              | Some (f, v) \<Rightarrow>
                  if IsExported f then Inr (entryFields(snake field \<mapsto> v))
                  else Inl InterfaceOfUnexportedField)
         | _ \<Rightarrow> Inl CallOnWrongKind)
      else if kind = Map then
        (case entry of
           MapVal kvs \<Rightarrow> Inr (scanKeys kvs field entryFields)
         | _ \<Rightarrow> Inl CallOnWrongKind)
      else Inr entryFields)"

text \<open>Lines 127--141: the loop over the fields, for one record.\<close>

fun transformFields :: "kind \<Rightarrow> 'v govalue \<Rightarrow> sanitizedField list \<Rightarrow> (string \<rightharpoonup> 'v) \<Rightarrow> panic + (string \<rightharpoonup> 'v)" where
  "transformFields kind entry [] entryFields = Inr entryFields"
| "transformFields kind entry (field # rest) entryFields =
     (case transformField kind entry field entryFields of
        Inl p \<Rightarrow> Inl p
      | Inr entryFields' \<Rightarrow> transformFields kind entry rest entryFields')"

text \<open>Lines 125--141: the projected record of one entry, starting from the empty map.\<close>

definition transformEntry :: "kind \<Rightarrow> sanitizedField list \<Rightarrow> 'v govalue \<Rightarrow> panic + (string \<rightharpoonup> 'v)" where
  "transformEntry kind fields' entry = transformFields kind entry fields' Map.empty"

text \<open>
  \<open>doTransform\<close>: the loop over the entries of one chunk, appending one projected record
  per entry to \<open>out\<close>.
\<close>

fun doTransform :: "kind \<Rightarrow> (string \<rightharpoonup> 'v) list \<Rightarrow> 'v govalue list \<Rightarrow> sanitizedField list \<Rightarrow> panic + (string \<rightharpoonup> 'v) list" where
  "doTransform kind out [] fields' = Inr out"
| "doTransform kind out (entry # rest) fields' =
     (case transformEntry kind fields' entry of
        Inl p \<Rightarrow> Inl p
      | Inr entryFields \<Rightarrow> doTransform kind (out @ [entryFields]) rest fields')"

subsection \<open>With (lines 146--179)\<close>

text \<open>The slice expression \<open>s[lo:hi]\<close> of line 172, with its bounds check.\<close>

definition subslice :: "'a list \<Rightarrow> nat \<Rightarrow> nat \<Rightarrow> panic + 'a list" where
  "subslice s lo hi =
     (if lo \<le> hi \<and> hi \<le> length s then Inr (take (hi - lo) (drop lo s))
      else Inl SliceBoundsOutOfRange)"

text \<open>Lines 168--171: the end index of chunk \<open>i\<close>.\<close>

definition chunkEnd :: "nat \<Rightarrow> nat \<Rightarrow> nat \<Rightarrow> nat \<Rightarrow> nat" where
  "chunkEnd payloadSize delta chunkSize i =
     (if 1 + i = delta then payloadSize else (1 + i) * chunkSize)"

text \<open>
  Lines 167--174. Each goroutine writes only its own \<open>chunks[i]\<close> and reads only its own
  sub-slice, and \<open>wg.Wait()\<close> returns after all of them; the result is that of running
  them one after the other. A panic in any goroutine ends the program.
\<close>

fun runChunks :: "kind \<Rightarrow> 'v govalue list \<Rightarrow> sanitizedField list \<Rightarrow> nat \<Rightarrow> nat \<Rightarrow> nat \<Rightarrow> nat list \<Rightarrow> panic + (string \<rightharpoonup> 'v) list list" where
  "runChunks kind payload fields' payloadSize delta chunkSize [] = Inr []"
| "runChunks kind payload fields' payloadSize delta chunkSize (i # rest) =
     (case subslice payload (i * chunkSize) (chunkEnd payloadSize delta chunkSize i) of
        Inl p \<Rightarrow> Inl p
      | Inr part \<Rightarrow>
          (case doTransform kind [] part fields' of
             Inl p \<Rightarrow> Inl p
           | Inr chunk \<Rightarrow>
               (case runChunks kind payload fields' payloadSize delta chunkSize rest of
                  Inl p \<Rightarrow> Inl p
                | Inr chunks \<Rightarrow> Inr (chunk # chunks))))"

definition With :: "gotype \<Rightarrow> 'v govalue Result \<Rightarrow> string list \<Rightarrow> panic + (string \<rightharpoonup> 'v) Result" where
  "With T r fields' =
     (let transformed = \<lparr>Page = Page r, RPP = RPP r, Payload = Some []\<rparr>;
          payloadSize = len (Payload r)
      in
      if length fields' = 0 \<or> Payload r = None \<or> payloadSize = 0 then Inr transformed
      else
        (case TypeOf (elems (Payload r) ! 0) of
           None \<Rightarrow> Inl NilPointerDereference
         | Some t \<Rightarrow>
             let kind = Kind t in
             if kind \<noteq> Struct \<and> kind \<noteq> Map then Inr transformed
             else
               let delta = computeDelta payloadSize;
                   chunkSize = payloadSize div delta
               in
               (case sanitizeFields T fields' of
                  Inl p \<Rightarrow> Inl p
                | Inr sanitizedFields \<Rightarrow>
                    (case runChunks kind (elems (Payload r)) sanitizedFields
                            payloadSize delta chunkSize [0..<delta] of
                       Inl p \<Rightarrow> Inl p
                     | Inr chunks \<Rightarrow>
                         Inr (transformed\<lparr>Payload := Some (concat chunks)\<rparr>)))))"

subsection \<open>The resolver as the specification words it\<close>

text \<open>
  The specification describes the field resolver in three steps: normalise every raw
  string and discard the empty ones; keep each name at its first occurrence; resolve each
  name on its own. The definitions below follow those words; they are compared with
  \<open>sanitizeFields\<close> further down.
\<close>

definition spec_names :: "string list \<Rightarrow> string list" where
  "spec_names raws = filter (\<lambda>n. n \<noteq> []) (map (\<lambda>raw. Trim raw cutset) raws)"

fun firstSeen :: "'a list \<Rightarrow> 'a list" where
  "firstSeen [] = []"
| "firstSeen (x # xs) = x # removeAll x (firstSeen xs)"

text \<open>Fixed schema: the first declared field whose external alias is the name.\<close>

definition spec_descriptor :: "StructField list \<Rightarrow> string \<Rightarrow> sanitizedField option" where
  "spec_descriptor fs n =
     (case find (\<lambda>f. tagValue f = n) fs of None \<Rightarrow> None | Some f \<Rightarrow> Some (n, Name f))"

definition spec_resolve_struct :: "StructField list \<Rightarrow> string list \<Rightarrow> sanitizedField list" where
  "spec_resolve_struct fs raws = List.map_filter (spec_descriptor fs) (firstSeen (spec_names raws))"

subsection \<open>Inputs\<close>

text \<open>
  The descriptors whose values \<open>reflect\<close> hands out: the declared field that
  \<open>FieldByName\<close> finds for the internal name of each of them, if any, is exported.
\<close>

definition readable :: "StructField list \<Rightarrow> sanitizedField list \<Rightarrow> bool" where
  "readable fs sfs =
     list_all (\<lambda>d. case find (\<lambda>f. Name f = pascal d) fs of
                      None \<Rightarrow> True | Some f \<Rightarrow> IsExported f) sfs"

text \<open>
  The record types and field lists on which \<open>With\<close> reads no unexported field: a map
  type with any field list, and a struct type with a field list whose names resolve to
  readable descriptors. A struct type may have unexported fields, as long as none of
  them is requested by its alias.
\<close>

definition projectable :: "gotype \<Rightarrow> string list \<Rightarrow> bool" where
  "projectable T raws =
     (case T of TStruct fs \<Rightarrow> readable fs (sanitizeStruct fs raws []) | TMap \<Rightarrow> True | _ \<Rightarrow> False)"

text \<open>A payload of \<open>[]T\<close>: every element is a value of type \<open>T\<close>.\<close>

definition well_typed :: "gotype \<Rightarrow> 'v govalue list \<Rightarrow> bool" where
  "well_typed T payload = list_all (has_type T) payload"

subsection \<open>A struct type for the examples\<close>

text \<open>The first two fields of \<open>User\<close> (lines 17--40), with their \<open>json\<close> tags.\<close>

abbreviation idField :: StructField where
  "idField \<equiv> \<lparr>Name = ''ID'', PkgPath = [], TagJson = ''id''\<rparr>"

abbreviation firstNameField :: StructField where
  "firstNameField \<equiv> \<lparr>Name = ''FirstName'', PkgPath = [], TagJson = ''first_name''\<rparr>"

abbreviation userT :: gotype where
  "userT \<equiv> TStruct [idField, firstNameField]"

text \<open>A struct type with an unexported field that has a \<open>json\<close> tag:
  \<^verbatim>\<open>struct { ID string `json:"id"`; secret string `json:"secret"` }\<close> in package \<open>main\<close>.\<close>

abbreviation secretField :: StructField where
  "secretField \<equiv> \<lparr>Name = ''secret'', PkgPath = ''main'', TagJson = ''secret''\<rparr>"

abbreviation secretT :: gotype where
  "secretT \<equiv> TStruct [idField, secretField]"

section \<open>Properties\<close>

subsection \<open>Chunks\<close>

lemma computeDelta_pos: "0 < computeDelta n"
  by (simp add: computeDelta_def)

lemma chunk_bound: "(computeDelta n - 1) * (n div computeDelta n) \<le> n"
proof -
  have "(computeDelta n - 1) * (n div computeDelta n) \<le> computeDelta n * (n div computeDelta n)"
    by (intro mult_le_mono1) simp
  also have "\<dots> \<le> n" by simp
  finally show ?thesis .
qed

lemma take_chunk_drop: "take c (drop (k * c) ms) @ drop (Suc k * c) ms = drop (k * c) ms"
  by (metis append_take_drop_id drop_drop mult_Suc)

subsection \<open>One chunk\<close>

lemma doTransform_all2:
  "list_all2 (\<lambda>e m. transformEntry kind sfs e = Inr m) xs ms \<Longrightarrow>
   doTransform kind out xs sfs = Inr (out @ ms)"
  by (induction xs arbitrary: out ms) (auto simp: list_all2_Cons1)

lemma doTransform_Inr:
  "doTransform kind out xs sfs = Inr res \<Longrightarrow>
   \<exists>ms. res = out @ ms \<and> list_all2 (\<lambda>e m. transformEntry kind sfs e = Inr m) xs ms"
proof (induction xs arbitrary: out res)
  case Nil
  then show ?case by simp
next
  case (Cons e xs)
  from Cons.prems obtain m where m: "transformEntry kind sfs e = Inr m"
    and rest: "doTransform kind (out @ [m]) xs sfs = Inr res"
    by (auto split: sum.splits)
  from Cons.IH [OF rest] obtain ms where "res = (out @ [m]) @ ms"
    and "list_all2 (\<lambda>e m. transformEntry kind sfs e = Inr m) xs ms" by blast
  then have "res = out @ (m # ms) \<and>
      list_all2 (\<lambda>e m. transformEntry kind sfs e = Inr m) (e # xs) (m # ms)"
    using m by simp
  then show ?case by blast
qed

subsection \<open>All chunks: the parts are taken in order and cover the payload\<close>

lemma runChunks_from:
  assumes all2: "list_all2 (\<lambda>e m. transformEntry kind sfs e = Inr m) payload ms"
      and bound: "(delta - 1) * c \<le> length payload"
  shows "k < delta \<Longrightarrow>
         \<exists>chunks. runChunks kind payload sfs (length payload) delta c [k..<delta] = Inr chunks
                 \<and> concat chunks = drop (k * c) ms"
proof (induction "delta - k" arbitrary: k)
  case 0
  then show ?case by simp
next
  case (Suc d)
  have upt: "[k..<delta] = k # [Suc k..<delta]" using Suc.prems by (simp add: upt_conv_Cons)
  show ?case
  proof (cases "Suc k = delta")
    case True
    have le: "k * c \<le> length payload" using bound True by auto
    have sl: "subslice payload (k * c) (length payload) = Inr (drop (k * c) payload)"
      using le by (simp add: subslice_def)
    have "list_all2 (\<lambda>e m. transformEntry kind sfs e = Inr m)
            (drop (k * c) payload) (drop (k * c) ms)"
      using all2 by (rule list_all2_dropI)
    then have dt: "doTransform kind [] (drop (k * c) payload) sfs = Inr (drop (k * c) ms)"
      using doTransform_all2 [of kind sfs _ _ "[]"] by simp
    show ?thesis using True sl dt upt by (simp add: chunkEnd_def)
  next
    case False
    then have lt: "Suc k < delta" using Suc.prems by simp
    have "Suc k * c \<le> (delta - 1) * c" using lt by (intro mult_le_mono1) simp
    then have le: "Suc k * c \<le> length payload" using bound by simp
    have sl: "subslice payload (k * c) (Suc k * c) = Inr (take c (drop (k * c) payload))"
      using le by (simp add: subslice_def)
    have "list_all2 (\<lambda>e m. transformEntry kind sfs e = Inr m)
            (take c (drop (k * c) payload)) (take c (drop (k * c) ms))"
      using all2 by (intro list_all2_takeI list_all2_dropI)
    then have dt: "doTransform kind [] (take c (drop (k * c) payload)) sfs
                     = Inr (take c (drop (k * c) ms))"
      using doTransform_all2 [of kind sfs _ _ "[]"] by simp
    have "d = delta - Suc k" using Suc.hyps(2) by simp
    from Suc.hyps(1) [OF this lt]
    obtain chunks where
      rc: "runChunks kind payload sfs (length payload) delta c [Suc k..<delta] = Inr chunks"
      and cc: "concat chunks = drop (Suc k * c) ms" by auto
    show ?thesis using False sl dt rc cc upt take_chunk_drop [of c k ms]
      by (simp add: chunkEnd_def)
  qed
qed

lemma runChunks_Inr_from:
  assumes bound: "(delta - 1) * c \<le> length payload"
  shows "k < delta \<Longrightarrow>
         runChunks kind payload sfs (length payload) delta c [k..<delta] = Inr chunks \<Longrightarrow>
         list_all2 (\<lambda>e m. transformEntry kind sfs e = Inr m) (drop (k * c) payload) (concat chunks)"
proof (induction "delta - k" arbitrary: k chunks)
  case 0
  then show ?case by simp
next
  case (Suc d)
  have upt: "[k..<delta] = k # [Suc k..<delta]" using Suc.prems by (simp add: upt_conv_Cons)
  show ?case
  proof (cases "Suc k = delta")
    case True
    have le: "k * c \<le> length payload" using bound True by auto
    have sl: "subslice payload (k * c) (length payload) = Inr (drop (k * c) payload)"
      using le by (simp add: subslice_def)
    from Suc.prems(2) upt True sl obtain chunk where
      d: "doTransform kind [] (drop (k * c) payload) sfs = Inr chunk" and e: "chunks = [chunk]"
      by (auto simp: chunkEnd_def split: sum.splits)
    from doTransform_Inr [OF d] e show ?thesis by simp
  next
    case False
    then have lt: "Suc k < delta" using Suc.prems by simp
    have "Suc k * c \<le> (delta - 1) * c" using lt by (intro mult_le_mono1) simp
    then have le: "Suc k * c \<le> length payload" using bound by simp
    have sl: "subslice payload (k * c) (Suc k * c) = Inr (take c (drop (k * c) payload))"
      using le by (simp add: subslice_def)
    from Suc.prems(2) upt False sl obtain chunk chunks' where
      d: "doTransform kind [] (take c (drop (k * c) payload)) sfs = Inr chunk"
      and r: "runChunks kind payload sfs (length payload) delta c [Suc k..<delta] = Inr chunks'"
      and e: "chunks = chunk # chunks'"
      by (auto simp: chunkEnd_def split: sum.splits)
    have "d = delta - Suc k" using Suc.hyps(2) by simp
    from Suc.hyps(1) [OF this lt r]
    have rest: "list_all2 (\<lambda>e m. transformEntry kind sfs e = Inr m)
                  (drop (Suc k * c) payload) (concat chunks')" .
    from doTransform_Inr [OF d]
    have first: "list_all2 (\<lambda>e m. transformEntry kind sfs e = Inr m)
                  (take c (drop (k * c) payload)) chunk" by simp
    from list_all2_appendI [OF first rest] e take_chunk_drop [of c k payload]
    show ?thesis by simp
  qed
qed

lemma runChunks_all:
  assumes "list_all2 (\<lambda>e m. transformEntry kind sfs e = Inr m) payload ms"
  shows "\<exists>chunks. runChunks kind payload sfs (length payload) (computeDelta (length payload))
            (length payload div computeDelta (length payload))
            [0..<computeDelta (length payload)] = Inr chunks
          \<and> concat chunks = ms"
  using runChunks_from [OF assms chunk_bound computeDelta_pos] by simp

lemma runChunks_Inr_all:
  assumes "runChunks kind payload sfs (length payload) (computeDelta (length payload))
            (length payload div computeDelta (length payload))
            [0..<computeDelta (length payload)] = Inr chunks"
  shows "list_all2 (\<lambda>e m. transformEntry kind sfs e = Inr m) payload (concat chunks)"
  using runChunks_Inr_from [OF chunk_bound computeDelta_pos assms] by simp

subsection \<open>The paths of With\<close>

lemma With_short_circuit:
  "fields' = [] \<or> len (Payload r) = 0 \<Longrightarrow>
   With T r fields' = Inr \<lparr>Page = Page r, RPP = RPP r, Payload = Some []\<rparr>"
  by (auto simp: With_def Let_def len_def elems_def split: option.splits)

lemma With_unsupported:
  "Payload r = Some payload \<Longrightarrow> payload \<noteq> [] \<Longrightarrow> TypeOf (payload ! 0) = Some t \<Longrightarrow>
   Kind t \<noteq> Struct \<Longrightarrow> Kind t \<noteq> Map \<Longrightarrow>
   With T r fields' = Inr \<lparr>Page = Page r, RPP = RPP r, Payload = Some []\<rparr>"
  by (auto simp: With_def Let_def len_def elems_def)

lemma With_main:
  assumes fields: "fields' \<noteq> []"
      and payload: "Payload r = Some payload" "payload \<noteq> []"
      and kind: "TypeOf (payload ! 0) = Some t" "Kind t = Struct \<or> Kind t = Map"
      and sfs: "sanitizeFields T fields' = Inr sfs"
      and all2: "list_all2 (\<lambda>e m. transformEntry (Kind t) sfs e = Inr m) payload ms"
  shows "With T r fields' = Inr \<lparr>Page = Page r, RPP = RPP r, Payload = Some ms\<rparr>"
proof -
  from runChunks_all [OF all2] obtain chunks where
    rc: "runChunks (Kind t) payload sfs (length payload) (computeDelta (length payload))
            (length payload div computeDelta (length payload))
            [0..<computeDelta (length payload)] = Inr chunks"
    and cc: "concat chunks = ms" by blast
  show ?thesis
    using fields payload kind sfs rc cc
    by (auto simp: With_def Let_def len_def elems_def)
qed

lemma With_main_Inr:
  assumes fields: "fields' \<noteq> []"
      and payload: "Payload r = Some payload" "payload \<noteq> []"
      and kind: "TypeOf (payload ! 0) = Some t" "Kind t = Struct \<or> Kind t = Map"
      and res: "With T r fields' = Inr out"
  shows "\<exists>sfs ms. sanitizeFields T fields' = Inr sfs \<and> Payload out = Some ms \<and>
           list_all2 (\<lambda>e m. transformEntry (Kind t) sfs e = Inr m) payload ms"
proof -
  from res fields payload kind obtain sfs chunks where
    sfs: "sanitizeFields T fields' = Inr sfs"
    and rc: "runChunks (Kind t) payload sfs (length payload) (computeDelta (length payload))
            (length payload div computeDelta (length payload))
            [0..<computeDelta (length payload)] = Inr chunks"
    and out: "Payload out = Some (concat chunks)"
    by (auto simp: With_def Let_def len_def elems_def split: sum.splits)
  from runChunks_Inr_all [OF rc] sfs out show ?thesis by blast
qed

subsection \<open>The resolver computes what the specification words\<close>

lemma contains_iff: "contains acc n \<longleftrightarrow> n \<in> snake ` set acc"
  by (auto simp: contains_def list_ex_iff)

lemma scanFields_closed:
  "scanFields fs n acc =
     (if contains acc n then acc
      else case spec_descriptor fs n of None \<Rightarrow> acc | Some d \<Rightarrow> acc @ [d])"
proof (induction fs arbitrary: acc)
  case Nil
  then show ?case by (simp add: spec_descriptor_def)
next
  case (Cons f fs)
  show ?case
  proof (cases "tagValue f = n \<and> \<not> contains acc n")
    case True
    then have "contains (acc @ [(n, Name f)]) n" by (simp add: contains_iff snake_def)
    with True Cons.IH [of "acc @ [(n, Name f)]"] show ?thesis
      by (simp add: spec_descriptor_def snake_def)
  next
    case False
    with Cons.IH [of acc] show ?thesis
      by (auto simp: spec_descriptor_def snake_def)
  qed
qed

lemma spec_descriptor_snake: "spec_descriptor fs n = Some d \<Longrightarrow> snake d = n"
  by (auto simp: spec_descriptor_def snake_def split: option.splits)

lemma spec_descriptor_field:
  "spec_descriptor fs n = Some d \<Longrightarrow> \<exists>f \<in> set fs. d = (tagValue f, Name f)"
proof -
  assume "spec_descriptor fs n = Some d"
  then obtain f where f: "find (\<lambda>f. tagValue f = n) fs = Some f" and d: "d = (n, Name f)"
    by (auto simp: spec_descriptor_def split: option.splits)
  from f have "f \<in> set fs \<and> tagValue f = n"
    by (auto simp: find_Some_iff)
  with d show ?thesis by auto
qed

lemma map_filter_removeAll_None:
  "g n = None \<Longrightarrow> List.map_filter g (removeAll n xs) = List.map_filter g xs"
  by (induction xs) (auto simp: split: option.splits)

lemma filter_removeAll_commute: "filter P (removeAll n xs) = removeAll n (filter P xs)"
  by (induction xs) auto

lemma filter_removeAll_in: "n \<in> S \<Longrightarrow> filter (\<lambda>x. x \<notin> S) (removeAll n xs) = filter (\<lambda>x. x \<notin> S) xs"
  by (induction xs) auto

lemma filter_removeAll_insert:
  "filter (\<lambda>x. x \<notin> S) (removeAll n xs) = filter (\<lambda>x. x \<notin> insert n S) xs"
  by (induction xs) auto

lemma sanitizeStruct_closed:
  "sanitizeStruct fs raws acc =
     acc @ List.map_filter (spec_descriptor fs)
             (filter (\<lambda>n. n \<notin> snake ` set acc) (firstSeen (spec_names raws)))"
proof (induction raws arbitrary: acc)
  case Nil
  then show ?case by (simp add: spec_names_def)
next
  case (Cons raw raws)
  let ?n = "Trim raw cutset"
  let ?F = "firstSeen (spec_names raws)"
  show ?case
  proof (cases "?n = []")
    case True
    then show ?thesis using Cons.IH [of acc] by (simp add: spec_names_def)
  next
    case ne: False
    then have names: "spec_names (raw # raws) = ?n # spec_names raws"
      by (simp add: spec_names_def)
    show ?thesis
    proof (cases "contains acc ?n")
      case True
      then have "?n \<in> snake ` set acc" by (simp add: contains_iff)
      then show ?thesis using ne True Cons.IH [of acc] names
        by (simp add: scanFields_closed filter_removeAll_in)
    next
      case nc: False
      then have notin: "?n \<notin> snake ` set acc" by (simp add: contains_iff)
      show ?thesis
      proof (cases "spec_descriptor fs ?n")
        case None
        have "List.map_filter (spec_descriptor fs) (filter (\<lambda>n. n \<notin> snake ` set acc) (removeAll ?n ?F))
            = List.map_filter (spec_descriptor fs) (filter (\<lambda>n. n \<notin> snake ` set acc) ?F)"
          using map_filter_removeAll_None [where g = "spec_descriptor fs" and n = ?n
                  and xs = "filter (\<lambda>n. n \<notin> snake ` set acc) ?F"] None
          by (simp add: filter_removeAll_commute)
        then show ?thesis using ne nc notin None Cons.IH [of acc] names
          by (simp add: scanFields_closed)
      next
        case (Some d)
        then have sn: "snake d = ?n" by (rule spec_descriptor_snake)
        have "snake ` set (acc @ [d]) = insert ?n (snake ` set acc)" using sn by auto
        then show ?thesis using ne nc notin Some Cons.IH [of "acc @ [d]"] names
          by (simp add: scanFields_closed filter_removeAll_insert)
      qed
    qed
  qed
qed

lemma sanitizeMap_closed:
  "sanitizeMap raws acc =
     acc @ map (\<lambda>n. (n, []))
             (filter (\<lambda>n. n \<notin> snake ` set acc) (firstSeen (spec_names raws)))"
proof (induction raws arbitrary: acc)
  case Nil
  then show ?case by (simp add: spec_names_def)
next
  case (Cons raw raws)
  let ?n = "Trim raw cutset"
  show ?case
  proof (cases "?n = []")
    case True
    then show ?thesis using Cons.IH [of acc] by (simp add: spec_names_def)
  next
    case ne: False
    then have names: "spec_names (raw # raws) = ?n # spec_names raws"
      by (simp add: spec_names_def)
    show ?thesis
    proof (cases "contains acc ?n")
      case True
      then have "?n \<in> snake ` set acc" by (simp add: contains_iff)
      then show ?thesis using ne True Cons.IH [of acc] names
        by (simp add: filter_removeAll_in Let_def)
    next
      case nc: False
      then have notin: "?n \<notin> snake ` set acc" by (simp add: contains_iff)
      have "snake ` set (acc @ [(?n, [])]) = insert ?n (snake ` set acc)"
        by (auto simp: snake_def)
      then show ?thesis using ne nc notin Cons.IH [of "acc @ [(?n, [])]"] names
        by (simp add: filter_removeAll_insert Let_def)
    qed
  qed
qed

lemma sanitizeFields_struct: "sanitizeFields (TStruct fs) raws = Inr (spec_resolve_struct fs raws)"
  by (simp add: sanitizeFields_def TypeOfZero_def sanitizeStruct_closed spec_resolve_struct_def)

lemma sanitizeFields_map:
  "sanitizeFields TMap raws = Inr (map (\<lambda>n. (n, [])) (firstSeen (spec_names raws)))"
  by (simp add: sanitizeFields_def TypeOfZero_def sanitizeMap_closed)

lemma distinct_firstSeen: "distinct (firstSeen xs)"
  by (induction xs) (auto simp: distinct_removeAll)

lemma set_firstSeen: "set (firstSeen xs) = set xs"
  by (induction xs) auto

lemma distinct_map_filter_snake:
  "distinct ns \<Longrightarrow> distinct (map snake (List.map_filter (spec_descriptor fs) ns))"
proof (induction ns)
  case Nil
  then show ?case by (simp add:)
next
  case (Cons n ns)
  have "snake ` set (List.map_filter (spec_descriptor fs) ns) \<subseteq> set ns"
    by (auto simp: List.map_filter_def dest: spec_descriptor_snake)
  with Cons show ?case
    by (auto simp: split: option.splits dest: spec_descriptor_snake)
qed

lemma sanitizeStruct_append:
  "sanitizeStruct fs (xs @ ys) acc = sanitizeStruct fs ys (sanitizeStruct fs xs acc)"
  by (induction xs arbitrary: acc) (auto simp: Let_def)

lemma sanitizeMap_append:
  "sanitizeMap (xs @ ys) acc = sanitizeMap ys (sanitizeMap xs acc)"
  by (induction xs arbitrary: acc) (auto simp: Let_def)

lemma sanitizeStruct_skip:
  "Trim raw cutset \<in> snake ` set acc \<Longrightarrow>
   sanitizeStruct fs (raw # ys) acc = sanitizeStruct fs ys acc"
  by (simp add: Let_def scanFields_closed contains_iff)

lemma sanitizeMap_skip:
  "Trim raw cutset \<in> snake ` set acc \<Longrightarrow> sanitizeMap (raw # ys) acc = sanitizeMap ys acc"
  by (simp add: Let_def contains_iff)

lemma sanitizeFields_skip:
  assumes "sanitizeFields T xs = Inr seen" and "Trim raw cutset \<in> snake ` set seen"
  shows "sanitizeFields T (xs @ raw # ys) = sanitizeFields T (xs @ ys)"
proof (cases T)
  case (TStruct fs)
  with assms(1) have seen: "sanitizeStruct fs xs [] = seen"
    by (simp add: sanitizeFields_def TypeOfZero_def)
  have "sanitizeStruct fs (xs @ raw # ys) [] = sanitizeStruct fs (xs @ ys) []"
    unfolding sanitizeStruct_append seen using assms(2) by (rule sanitizeStruct_skip)
  with TStruct show ?thesis by (simp add: sanitizeFields_def TypeOfZero_def)
next
  case TMap
  with assms(1) have seen: "sanitizeMap xs [] = seen"
    by (simp add: sanitizeFields_def TypeOfZero_def)
  have "sanitizeMap (xs @ raw # ys) [] = sanitizeMap (xs @ ys) []"
    unfolding sanitizeMap_append seen using assms(2) by (rule sanitizeMap_skip)
  with TMap show ?thesis by (simp add: sanitizeFields_def TypeOfZero_def)
qed (use assms in \<open>auto simp: sanitizeFields_def TypeOfZero_def\<close>)

lemma spec_resolve_struct_fields:
  "d \<in> set (spec_resolve_struct fs raws) \<Longrightarrow> \<exists>f\<in>set fs. d = (tagValue f, Name f)"
proof -
  assume "d \<in> set (spec_resolve_struct fs raws)"
  then obtain n where "spec_descriptor fs n = Some d"
    by (auto simp: spec_resolve_struct_def List.map_filter_def)
  then show ?thesis by (rule spec_descriptor_field)
qed

lemma spec_resolve_struct_distinct: "distinct (map snake (spec_resolve_struct fs raws))"
  by (simp add: spec_resolve_struct_def distinct_map_filter_snake distinct_firstSeen)

lemma sanitizeFields_distinct:
  assumes "sanitizeFields T raws = Inr sfs"
  shows "distinct (map snake sfs)"
proof (cases T)
  case (TStruct fs)
  with assms show ?thesis by (auto simp: sanitizeFields_struct spec_resolve_struct_distinct)
next
  case TMap
  have "map snake (map (\<lambda>n. (n, [])) (firstSeen (spec_names raws))) = firstSeen (spec_names raws)"
    by (simp add: snake_def comp_def)
  with TMap assms show ?thesis by (auto simp: sanitizeFields_map distinct_firstSeen)
qed (use assms in \<open>auto simp: sanitizeFields_def TypeOfZero_def\<close>)

subsection \<open>One record\<close>

lemma FieldByName_Some:
  "FieldByName fvs name = Some (f, v) \<Longrightarrow> (f, v) \<in> set fvs \<and> Name f = name"
proof -
  assume "FieldByName fvs name = Some (f, v)"
  then obtain i where "i < length fvs" "Name (fst (fvs ! i)) = name" "(f, v) = fvs ! i"
    by (auto simp: FieldByName_def find_Some_iff)
  then show ?thesis by (metis fst_conv nth_mem)
qed

lemma FieldByName_defined:
  "name \<in> Name ` set (map fst fvs) \<Longrightarrow> \<exists>f v. FieldByName fvs name = Some (f, v)"
proof -
  assume "name \<in> Name ` set (map fst fvs)"
  then have "find (\<lambda>fv. Name (fst fv) = name) fvs \<noteq> None"
    by (auto simp: find_None_iff)
  then show ?thesis by (auto simp: FieldByName_def)
qed

lemma find_map_fst: "find P (map fst fvs) = map_option fst (find (\<lambda>fv. P (fst fv)) fvs)"
  by (induction fvs) auto

lemma transformFields_struct:
  "readable (map fst fvs) sfs \<Longrightarrow> \<forall>d\<in>set sfs. pascal d \<in> Name ` set (map fst fvs) \<Longrightarrow>
     \<exists>m. transformFields Struct (StructVal fvs) sfs m0 = Inr m \<and> dom m = dom m0 \<union> snake ` set sfs"
proof (induction sfs arbitrary: m0)
  case Nil
  then show ?case by simp
next
  case (Cons d sfs)
  from Cons.prems have "pascal d \<in> Name ` set (map fst fvs)" by simp
  from FieldByName_defined [OF this] obtain f v where fv: "FieldByName fvs (pascal d) = Some (f, v)"
    by blast
  then have "find (\<lambda>f. Name f = pascal d) (map fst fvs) = Some f"
    by (simp add: find_map_fst FieldByName_def)
  with Cons.prems(1) have "IsExported f" by (simp add: readable_def)
  with fv have step: "transformField Struct (StructVal fvs) d m0 = Inr (m0(snake d \<mapsto> v))"
    by (simp add: transformField_def)
  from Cons.prems have r: "readable (map fst fvs) sfs" by (simp add: readable_def)
  from Cons.prems have "\<forall>d\<in>set sfs. pascal d \<in> Name ` set (map fst fvs)" by simp
  from Cons.IH [OF r this, of "m0(snake d \<mapsto> v)"] obtain m where
    "transformFields Struct (StructVal fvs) sfs (m0(snake d \<mapsto> v)) = Inr m"
    "dom m = dom (m0(snake d \<mapsto> v)) \<union> snake ` set sfs" by blast
  with step show ?case by auto
qed

lemma scanKeys_distinct:
  "distinct (map fst kvs) \<Longrightarrow>
   scanKeys kvs field m = (case map_of kvs (snake field) of None \<Rightarrow> m | Some v \<Rightarrow> m(snake field \<mapsto> v))"
proof (induction kvs arbitrary: m)
  case Nil
  then show ?case by simp
next
  case (Cons kv kvs)
  obtain k v where kv: "kv = (k, v)" by (cases kv)
  show ?case
  proof (cases "snake field = k")
    case True
    with Cons.prems kv have "map_of kvs (snake field) = None"
      by (simp add: map_of_eq_None_iff image_iff)
    with Cons True kv show ?thesis by simp
  next
    case False
    with Cons kv show ?thesis by simp
  qed
qed

lemma transformFields_map:
  assumes "distinct (map fst kvs)"
  shows "transformFields Map (MapVal kvs) sfs m0 =
     Inr (\<lambda>k. if k \<in> snake ` set sfs then (case map_of kvs k of None \<Rightarrow> m0 k | Some v \<Rightarrow> Some v)
              else m0 k)"
proof (induction sfs arbitrary: m0)
  case Nil
  then show ?case by simp
next
  case (Cons d sfs)
  have step: "transformField Map (MapVal kvs) d m0 = Inr (scanKeys kvs d m0)"
    by (simp add: transformField_def)
  show ?case
    unfolding transformFields.simps step sum.case Cons.IH scanKeys_distinct [OF assms]
    by (auto split: option.splits )
qed

lemma transformEntry_map:
  "distinct (map fst kvs) \<Longrightarrow>
   transformEntry Map sfs (MapVal kvs) = Inr (map_of kvs |` (snake ` set sfs))"
  by (auto simp: transformEntry_def transformFields_map restrict_map_def split: option.splits )

lemma ex_list_all2: "\<forall>x\<in>set xs. \<exists>y. P x y \<Longrightarrow> \<exists>ys. list_all2 P xs ys"
proof (induction xs)
  case Nil
  then show ?case by simp
next
  case (Cons x xs)
  then obtain y ys where "P x y" "list_all2 P xs ys" by auto
  then have "list_all2 P (x # xs) (y # ys)" by simp
  then show ?case by blast
qed

lemma sanitizeStruct_spec: "sanitizeStruct fs raws [] = spec_resolve_struct fs raws"
  using sanitizeFields_struct [of fs raws] by (simp add: sanitizeFields_def TypeOfZero_def)

lemma struct_descriptors_declared:
  "sanitizeFields (TStruct fs) raws = Inr sfs \<Longrightarrow>
   \<forall>d\<in>set sfs. \<exists>f\<in>set fs. pascal d = Name f \<and> snake d = tagValue f"
  by (auto simp: sanitizeFields_struct pascal_def snake_def dest!: spec_resolve_struct_fields)

lemma struct_lookup_found:
  assumes "sanitizeFields (TStruct fs) raws = Inr sfs" and "has_type (TStruct fs) e"
      and "d \<in> set sfs"
  shows "\<exists>fvs f v. e = StructVal fvs \<and> FieldByName fvs (pascal d) = Some (f, v)"
proof -
  from assms(2) obtain fvs where fvs: "e = StructVal fvs" "map fst fvs = fs" by (cases e) auto
  from struct_descriptors_declared [OF assms(1)] assms(3) fvs
  have "pascal d \<in> Name ` set (map fst fvs)" by auto
  from FieldByName_defined [OF this] fvs show ?thesis by blast
qed

lemma struct_entry_ok:
  assumes ex: "readable fs (spec_resolve_struct fs raws)" and ty: "has_type (TStruct fs) e"
  shows "\<exists>m. transformEntry Struct (spec_resolve_struct fs raws) e = Inr m
           \<and> dom m = snake ` set (spec_resolve_struct fs raws)"
proof -
  from ty obtain fvs where e: "e = StructVal fvs" and fs: "map fst fvs = fs"
    by (cases e) auto
  have "\<forall>d\<in>set (spec_resolve_struct fs raws). pascal d \<in> Name ` set (map fst fvs)"
    using fs by (auto simp: pascal_def dest!: spec_resolve_struct_fields)
  from transformFields_struct [OF _ this, of Map.empty] ex fs e show ?thesis
    by (simp add: transformEntry_def)
qed

lemma projectable_entry_ok:
  assumes "projectable T raws" "has_type T e" "sanitizeFields T raws = Inr sfs"
  shows "\<exists>m. transformEntry (Kind T) sfs e = Inr m"
proof (cases T)
  case (TStruct fs)
  with assms struct_entry_ok [of fs raws e] show ?thesis
    by (auto simp: projectable_def sanitizeFields_struct sanitizeStruct_spec)
next
  case TMap
  with assms(2) obtain kvs where "e = MapVal kvs" "distinct (map fst kvs)" by (cases e) auto
  with TMap show ?thesis by (simp add: transformEntry_map)
qed (use assms in \<open>auto simp: projectable_def\<close>)

lemma projectable_sanitize: "projectable T raws \<Longrightarrow> \<exists>sfs. sanitizeFields T raws = Inr sfs"
  by (cases T) (auto simp: projectable_def sanitizeFields_struct sanitizeFields_map)

lemma projectable_TypeOf: "projectable T raws \<Longrightarrow> has_type T e \<Longrightarrow> TypeOf e = Some T"
  by (cases T; cases e) (auto simp: projectable_def)

subsection \<open>Evaluation at concrete inputs\<close>

lemmas eval_defs =
  With_def Let_def len_def elems_def sanitizeFields_def TypeOfZero_def computeDelta_def
  Trim_def cutset_def tagValue_def SplitComma0_def contains_def snake_def pascal_def
  chunkEnd_def subslice_def transformEntry_def transformField_def FieldByName_def IsExported_def

lemma Trim_x: "Trim ''x'' cutset = ''x''"
  by (simp add: Trim_def cutset_def)

subsection \<open>Projection when no requested field is unexported\<close>

text \<open>
  Let the record type be a map type, or a struct type in which no requested name
  resolves to an unexported field; let the payload be a non-empty slice of such records
  and the field list non-empty. Then \<open>With\<close> returns a payload of the same length as
  the input payload, and for every index \<open>i\<close> its \<open>i\<close>-th record is the projection
  (\<open>transformEntry\<close>, the loop body of \<open>doTransform\<close>) of the \<open>i\<close>-th input record under the
  resolved descriptors, whatever the number of descriptors. The payload size is
  arbitrary, so every chunking threshold is covered.
\<close>

lemma With_projects_records:
  assumes shape: "projectable T fields'"
      and payload: "Payload r = Some payload" "payload \<noteq> []" "well_typed T payload"
      and fields: "fields' \<noteq> []"
  shows "\<exists>sfs ms. sanitizeFields T fields' = Inr sfs
           \<and> With T r fields' = Inr \<lparr>Page = Page r, RPP = RPP r, Payload = Some ms\<rparr>
           \<and> length ms = length payload
           \<and> (\<forall>i<length payload. transformEntry (Kind T) sfs (payload ! i) = Inr (ms ! i))"
proof -
  from projectable_sanitize [OF shape] obtain sfs where sfs: "sanitizeFields T fields' = Inr sfs"
    by blast
  have "\<forall>e\<in>set payload. \<exists>m. transformEntry (Kind T) sfs e = Inr m"
    using payload(3) projectable_entry_ok [OF shape _ sfs] by (auto simp: well_typed_def list_all_iff)
  from ex_list_all2 [OF this] obtain ms where
    all2: "list_all2 (\<lambda>e m. transformEntry (Kind T) sfs e = Inr m) payload ms" by blast
  have "has_type T (payload ! 0)" using payload by (simp add: well_typed_def list_all_iff)
  then have t: "TypeOf (payload ! 0) = Some T" by (rule projectable_TypeOf [OF shape])
  have k: "Kind T = Struct \<or> Kind T = Map" using shape by (cases T) (auto simp: projectable_def)
  from With_main [OF fields payload(1,2) t k sfs all2]
  have "With T r fields' = Inr \<lparr>Page = Page r, RPP = RPP r, Payload = Some ms\<rparr>" .
  moreover have "length ms = length payload" using all2 by (simp add: list_all2_lengthD)
  moreover have "\<forall>i<length payload. transformEntry (Kind T) sfs (payload ! i) = Inr (ms ! i)"
    using all2 by (simp add: list_all2_conv_all_nth)
  ultimately show ?thesis using sfs by blast
qed

text \<open>
  At size 101, where two chunks of 50 and 51 records are used: record \<open>i\<close> is
  \<open>{"x": i}\<close>, and so is the \<open>i\<close>-th record of the result.
\<close>

lemma With_projects_records_at_101:
  "projectable TMap [''x'']
   \<and> map (\<lambda>i. MapVal [(''x'', i)]) [0..<101] \<noteq> ([] :: nat govalue list)
   \<and> well_typed TMap (map (\<lambda>i. MapVal [(''x'', i)]) [0..<101] :: nat govalue list)
   \<and> [''x''] \<noteq> []
   \<and> computeDelta 101 = 2
   \<and> With TMap \<lparr>Page = 1, RPP = 101, Payload = Some (map (\<lambda>i. MapVal [(''x'', i::nat)]) [0..<101])\<rparr> [''x'']
       = Inr \<lparr>Page = 1, RPP = 101, Payload = Some (map (\<lambda>i. [''x'' \<mapsto> i]) [0..<101])\<rparr>"
proof -
  let ?payload = "map (\<lambda>i. MapVal [(''x'', i)]) [0..<101] :: nat govalue list"
  let ?r = "\<lparr>Page = 1, RPP = 101, Payload = Some ?payload\<rparr>"
  have shape: "projectable TMap [''x'']" by (simp add: projectable_def)
  have ne: "?payload \<noteq> []" by simp
  have wt: "well_typed TMap ?payload" by (simp add: well_typed_def list_all_iff)
  have p: "Payload ?r = Some ?payload" by simp
  have f: "[''x''] \<noteq> []" by simp
  have sfs: "sanitizeFields TMap [''x''] = Inr [(''x'', [])]"
    by (simp add: sanitizeFields_def TypeOfZero_def Trim_x contains_def)
  from With_projects_records [OF shape p ne wt f] sfs obtain ms where
    w: "With TMap ?r [''x''] = Inr \<lparr>Page = 1, RPP = 101, Payload = Some ms\<rparr>"
    and l: "length ms = 101"
    and e: "\<forall>i<101. transformEntry Map [(''x'', [])] (?payload ! i) = Inr (ms ! i)"
    by auto
  have "ms = map (\<lambda>i. [''x'' \<mapsto> i]) [0..<101]"
  proof (rule nth_equalityI)
    show "length ms = length (map (\<lambda>i. [''x'' \<mapsto> i]) [0..<101])" using l by simp
  next
    fix i assume "i < length ms"
    then have i: "i < 101" using l by simp
    then have "transformEntry Map [(''x'', [])] (MapVal [(''x'', i)]) = Inr (ms ! i)"
      using e by simp
    then have "ms ! i = [''x'' \<mapsto> i]"
      by (simp add: transformEntry_def transformField_def snake_def)
    then show "ms ! i = map (\<lambda>i. [''x'' \<mapsto> i]) [0..<101] ! i" using i by simp
  qed
  with w shape ne wt show ?thesis by (simp add: computeDelta_def)
qed

text \<open>
  A struct type with an untagged unexported field is projected as long as that field
  is not requested: \<open>struct { ID string `json:"id"`; mu int }\<close> with the fields
  \<open>["id", "mu"]\<close>.
\<close>

lemma With_projects_struct_with_unrequested_unexported_field:
  "projectable (TStruct [idField, \<lparr>Name = ''mu'', PkgPath = ''main'', TagJson = []\<rparr>]) [''id'', ''mu'']
   \<and> With (TStruct [idField, \<lparr>Name = ''mu'', PkgPath = ''main'', TagJson = []\<rparr>])
        \<lparr>Page = 1, RPP = 1,
         Payload = Some [StructVal [(idField, ''a''),
                            (\<lparr>Name = ''mu'', PkgPath = ''main'', TagJson = []\<rparr>, ''m'')]]\<rparr>
        [''id'', ''mu'']
      = Inr \<lparr>Page = 1, RPP = 1, Payload = Some [[''id'' \<mapsto> ''a'']]\<rparr>"
  by (simp add: projectable_def readable_def eval_defs)

text \<open>
  For a struct type every descriptor of \<open>sanitizeFields\<close> carries the name and the
  alias of a declared field (\<open>struct_descriptors_declared\<close>), and \<open>FieldByName\<close> finds a
  field in every record (\<open>struct_lookup_found\<close>). When no requested field is unexported,
  every record that \<open>With\<close> returns has as its keys exactly the external names of the
  descriptors, one key per descriptor; so all records of the output have the same keys.
\<close>

lemma struct_records_same_keys:
  assumes payload: "Payload r = Some payload" "payload \<noteq> []" "well_typed (TStruct fs) payload"
      and exported: "projectable (TStruct fs) fields'"
      and fields: "fields' \<noteq> []"
  shows "\<exists>sfs ms. sanitizeFields (TStruct fs) fields' = Inr sfs
           \<and> (\<forall>d\<in>set sfs. \<exists>f\<in>set fs. pascal d = Name f \<and> snake d = tagValue f)
           \<and> (\<forall>e\<in>set payload. \<forall>d\<in>set sfs. \<exists>fvs f v. e = StructVal fvs
                  \<and> FieldByName fvs (pascal d) = Some (f, v))
           \<and> With (TStruct fs) r fields' = Inr \<lparr>Page = Page r, RPP = RPP r, Payload = Some ms\<rparr>
           \<and> length ms = length payload
           \<and> (\<forall>m\<in>set ms. dom m = snake ` set sfs \<and> card (dom m) = length sfs)"
proof -
  let ?sfs = "spec_resolve_struct fs fields'"
  have ex: "readable fs ?sfs" using exported by (simp add: projectable_def sanitizeStruct_spec)
  have sfs: "sanitizeFields (TStruct fs) fields' = Inr ?sfs" by (rule sanitizeFields_struct)
  have decl: "\<forall>d\<in>set ?sfs. \<exists>f\<in>set fs. pascal d = Name f \<and> snake d = tagValue f"
    by (auto simp: pascal_def snake_def dest!: spec_resolve_struct_fields)
  have lookup: "\<forall>e\<in>set payload. \<forall>d\<in>set ?sfs. \<exists>fvs f v. e = StructVal fvs
                  \<and> FieldByName fvs (pascal d) = Some (f, v)"
  proof (intro ballI)
    fix e d assume e: "e \<in> set payload" and d: "d \<in> set ?sfs"
    from e payload(3) have "has_type (TStruct fs) e" by (simp add: well_typed_def list_all_iff)
    then obtain fvs where fvs: "e = StructVal fvs" "map fst fvs = fs" by (cases e) auto
    from d decl fvs have "pascal d \<in> Name ` set (map fst fvs)" by auto
    from FieldByName_defined [OF this] fvs show "\<exists>fvs f v. e = StructVal fvs
                  \<and> FieldByName fvs (pascal d) = Some (f, v)" by blast
  qed
  have "\<forall>e\<in>set payload. \<exists>m. transformEntry Struct ?sfs e = Inr m \<and> dom m = snake ` set ?sfs"
  proof
    fix e assume "e \<in> set payload"
    with payload(3) have "has_type (TStruct fs) e" by (simp add: well_typed_def list_all_iff)
    from struct_entry_ok [OF ex this]
    show "\<exists>m. transformEntry Struct ?sfs e = Inr m \<and> dom m = snake ` set ?sfs" .
  qed
  from ex_list_all2 [OF this] obtain ms where
    all2: "list_all2 (\<lambda>e m. transformEntry Struct ?sfs e = Inr m \<and> dom m = snake ` set ?sfs) payload ms"
    by blast
  then have all2': "list_all2 (\<lambda>e m. transformEntry (Kind (TStruct fs)) ?sfs e = Inr m) payload ms"
    by (auto elim: list_all2_mono)
  have doms: "\<forall>m\<in>set ms. dom m = snake ` set ?sfs"
  proof
    fix m assume "m \<in> set ms"
    then obtain i where "i < length ms" "m = ms ! i" by (auto simp: in_set_conv_nth)
    with all2 show "dom m = snake ` set ?sfs" by (simp add: list_all2_conv_all_nth)
  qed
  have card: "card (snake ` set ?sfs) = length ?sfs"
    using spec_resolve_struct_distinct [of fs fields'] distinct_card [of "map snake ?sfs"] by simp
  have "has_type (TStruct fs) (payload ! 0)"
    using payload by (simp add: well_typed_def list_all_iff)
  then have t: "TypeOf (payload ! 0) = Some (TStruct fs)" by (cases "payload ! 0") auto
  from With_main [OF fields payload(1,2) t _ sfs all2']
  have w: "With (TStruct fs) r fields' = Inr \<lparr>Page = Page r, RPP = RPP r, Payload = Some ms\<rparr>"
    by simp
  have l: "length ms = length payload" using all2 by (simp add: list_all2_lengthD)
  from sfs decl lookup w l doms card show ?thesis by (intro exI [of _ ?sfs] exI [of _ ms]) simp
qed

section \<open>The claims\<close>

subsection \<open>Projection\<close>

text \<open>
  Claim C1 does not hold of the code for every struct type. The struct type \<open>secretT\<close>
  is of a supported shape (its kind is struct), the payload of two of its records is not
  empty and the field list \<open>["id", "secret"]\<close> is not empty; \<open>With\<close> returns no payload: it
  panics at line 131, where \<open>Interface()\<close> is called on the value of the unexported field
  \<open>secret\<close>. On a map type, and on a struct type in which no requested name resolves to an
  unexported field, the claim holds (\<open>With_projects_records\<close>).
\<close>

theorem With_projection_panics_on_unexported_field:
  "Kind secretT = Struct
   \<and> well_typed secretT [StructVal [(idField, ''a''), (secretField, ''s'')],
                         StructVal [(idField, ''b''), (secretField, ''t'')]]
   \<and> With secretT
        \<lparr>Page = 1, RPP = 2,
         Payload = Some [StructVal [(idField, ''a''), (secretField, ''s'')],
                         StructVal [(idField, ''b''), (secretField, ''t'')]]\<rparr>
        [''id'', ''secret'']
      = Inl InterfaceOfUnexportedField"
  by (simp add: well_typed_def eval_defs)

subsection \<open>The empty results\<close>

text \<open>
  Claim C2, as the code has it. When the field list is empty, or the payload is nil or
  has length zero, \<open>With\<close> returns the same \<open>Page\<close> and \<open>RPP\<close> with an empty payload. When
  the input payload is not empty, a returned payload of length zero comes from an empty
  field list or from the return of lines 153--155 for a first element that is neither a
  struct nor a map: the short-circuit is not the only path to it.
\<close>

theorem With_empty_input:
  "(fields' = [] \<or> Payload r = None \<or> len (Payload r) = 0 \<longrightarrow>
      With T r fields' = Inr \<lparr>Page = Page r, RPP = RPP r, Payload = Some []\<rparr>)
   \<and> (With T r fields' = Inr out \<and> len (Payload r) \<noteq> 0 \<and> len (Payload out) = 0 \<longrightarrow>
      fields' = [] \<or>
      (\<exists>t. TypeOf (elems (Payload r) ! 0) = Some t \<and> Kind t \<noteq> Struct \<and> Kind t \<noteq> Map))"
proof (intro conjI impI)
  assume "fields' = [] \<or> Payload r = None \<or> len (Payload r) = 0"
  then have "fields' = [] \<or> len (Payload r) = 0" by (auto simp: len_def elems_def)
  then show "With T r fields' = Inr \<lparr>Page = Page r, RPP = RPP r, Payload = Some []\<rparr>"
    by (rule With_short_circuit)
next
  assume a: "With T r fields' = Inr out \<and> len (Payload r) \<noteq> 0 \<and> len (Payload out) = 0"
  show "fields' = [] \<or>
      (\<exists>t. TypeOf (elems (Payload r) ! 0) = Some t \<and> Kind t \<noteq> Struct \<and> Kind t \<noteq> Map)"
  proof (rule ccontr)
    assume n: "\<not> ?thesis"
    from a obtain payload where p: "Payload r = Some payload" "payload \<noteq> []"
      by (cases "Payload r") (auto simp: len_def elems_def)
    from n have f: "fields' \<noteq> []" by simp
    from a f p obtain t where t: "TypeOf (payload ! 0) = Some t"
      by (auto simp: With_def Let_def len_def elems_def split: option.splits)
    with n p have k: "Kind t = Struct \<or> Kind t = Map" by (auto simp: elems_def)
    from a have w: "With T r fields' = Inr out" by simp
    from With_main_Inr [OF f p t k w] obtain ms where
      "Payload out = Some ms" "length ms = length payload"
      by (auto dest: list_all2_lengthD)
    with a p show False by (simp add: len_def elems_def)
  qed
qed

text \<open>An empty field list on a payload of one record, and a nil payload.\<close>

theorem With_empty_input_witness:
  "With TMap \<lparr>Page = 3, RPP = 10, Payload = Some [MapVal [(''x'', 1::nat)]]\<rparr> []
     = Inr \<lparr>Page = 3, RPP = 10, Payload = Some []\<rparr>
   \<and> With TMap \<lparr>Page = 3, RPP = 10, Payload = (None :: nat govalue list option)\<rparr> [''x'']
     = Inr \<lparr>Page = 3, RPP = 10, Payload = Some []\<rparr>
   \<and> len (Payload \<lparr>Page = 3, RPP = 10, Payload = Some [MapVal [(''x'', 1::nat)]]\<rparr>) \<noteq> 0
   \<and> len (Payload \<lparr>Page = 3 :: 64 word, RPP = 10 :: 64 word, Payload = Some ([] :: (string \<rightharpoonup> nat) list)\<rparr>) = 0"
  using With_empty_input [of "[]" "\<lparr>Page = 3, RPP = 10, Payload = Some [MapVal [(''x'', 1::nat)]]\<rparr>" TMap
          "\<lparr>Page = 3, RPP = 10, Payload = Some []\<rparr>"]
        With_empty_input [of "[''x'']" "\<lparr>Page = 3, RPP = 10, Payload = None\<rparr>" TMap]
  by (simp add: len_def elems_def)

text \<open>
  A payload of one pointer and the field list \<open>["id"]\<close>: neither is empty, and the
  returned payload has length zero.
\<close>

theorem With_empty_output_not_only_short_circuit:
  "[''id''] \<noteq> [] \<and>
   len (Payload \<lparr>Page = 1, RPP = 1, Payload = Some [OtherVal (TPointer (TStruct [])) :: nat govalue]\<rparr>) \<noteq> 0 \<and>
   With (TPointer (TStruct []))
        \<lparr>Page = 1, RPP = 1, Payload = Some [OtherVal (TPointer (TStruct [])) :: nat govalue]\<rparr> [''id'']
     = Inr \<lparr>Page = 1, RPP = 1, Payload = Some []\<rparr>"
  by (simp add: With_def len_def elems_def)

subsection \<open>Names that resolve to nothing\<close>

text \<open>
  Claim C3. For a non-empty payload of struct records and a non-empty field list in
  which every name, once trimmed, is empty or is the alias of no declared field, the
  resolver returns no descriptor and \<open>With\<close> returns one empty map per input record, so
  the output payload has the length of the input payload. With the empty field list the
  same input gives a payload of length zero.
\<close>

theorem unresolved_names_give_empty_records:
  assumes payload: "Payload r = Some payload" "payload \<noteq> []" "well_typed (TStruct fs) payload"
      and fields: "fields' \<noteq> []"
      and unknown: "\<forall>raw\<in>set fields'. Trim raw cutset = [] \<or> Trim raw cutset \<notin> tagValue ` set fs"
  shows "sanitizeFields (TStruct fs) fields' = Inr []
       \<and> With (TStruct fs) r fields'
           = Inr \<lparr>Page = Page r, RPP = RPP r, Payload = Some (replicate (length payload) Map.empty)\<rparr>
       \<and> length (replicate (length payload) (Map.empty :: string \<rightharpoonup> 'v)) = length payload
       \<and> With (TStruct fs) r [] = Inr \<lparr>Page = Page r, RPP = RPP r, Payload = Some []\<rparr>"
proof -
  have none: "\<forall>n\<in>set (firstSeen (spec_names fields')). spec_descriptor fs n = None"
  proof
    fix n assume "n \<in> set (firstSeen (spec_names fields'))"
    then have "n \<noteq> [] \<and> n \<in> (\<lambda>raw. Trim raw cutset) ` set fields'"
      by (auto simp: set_firstSeen spec_names_def)
    with unknown have "n \<notin> tagValue ` set fs" by auto
    then have "find (\<lambda>f. tagValue f = n) fs = None" by (auto simp: find_None_iff)
    then show "spec_descriptor fs n = None" by (simp add: spec_descriptor_def)
  qed
  have "List.map_filter (spec_descriptor fs) (firstSeen (spec_names fields')) = []"
    using none by (induction "firstSeen (spec_names fields')") (auto simp: List.map_filter_def)
  then have sfs: "sanitizeFields (TStruct fs) fields' = Inr []"
    by (simp add: sanitizeFields_struct spec_resolve_struct_def)
  have "has_type (TStruct fs) (payload ! 0)"
    using payload by (simp add: well_typed_def list_all_iff)
  then have t: "TypeOf (payload ! 0) = Some (TStruct fs)"
    by (cases "payload ! 0") auto
  have all2: "list_all2 (\<lambda>e m. transformEntry (Kind (TStruct fs)) [] e = Inr m)
                payload (replicate (length payload) Map.empty)"
    by (simp add: list_all2_conv_all_nth transformEntry_def)
  from With_main [OF fields payload(1,2) t _ sfs all2] sfs With_short_circuit [of "[]" r "TStruct fs"]
  show ?thesis by simp
qed

text \<open>Three \<open>User\<close> records and the fields \<open>["unknown_a", "unknown_b"]\<close>.\<close>

theorem unresolved_names_give_empty_records_witness:
  "Payload \<lparr>Page = 1, RPP = 3, Payload = Some [StructVal [(idField, ''a''), (firstNameField, ''Ann'')],
        StructVal [(idField, ''b''), (firstNameField, ''Bob'')],
        StructVal [(idField, ''c''), (firstNameField, ''Cy'')]]\<rparr>
     = Some [StructVal [(idField, ''a''), (firstNameField, ''Ann'')],
        StructVal [(idField, ''b''), (firstNameField, ''Bob'')],
        StructVal [(idField, ''c''), (firstNameField, ''Cy'')]]
   \<and> well_typed userT [StructVal [(idField, ''a''), (firstNameField, ''Ann'')],
        StructVal [(idField, ''b''), (firstNameField, ''Bob'')],
        StructVal [(idField, ''c''), (firstNameField, ''Cy'')]]
   \<and> [''unknown_a'', ''unknown_b''] \<noteq> []
   \<and> Trim ''unknown_a'' cutset \<notin> tagValue ` set [idField, firstNameField]
   \<and> Trim ''unknown_b'' cutset \<notin> tagValue ` set [idField, firstNameField]
   \<and> With userT \<lparr>Page = 1, RPP = 3, Payload = Some [StructVal [(idField, ''a''), (firstNameField, ''Ann'')],
        StructVal [(idField, ''b''), (firstNameField, ''Bob'')],
        StructVal [(idField, ''c''), (firstNameField, ''Cy'')]]\<rparr> [''unknown_a'', ''unknown_b'']
     = Inr \<lparr>Page = 1, RPP = 3, Payload = Some [Map.empty, Map.empty, Map.empty]\<rparr>
   \<and> With userT \<lparr>Page = 1, RPP = 3, Payload = Some [StructVal [(idField, ''a''), (firstNameField, ''Ann'')],
        StructVal [(idField, ''b''), (firstNameField, ''Bob'')],
        StructVal [(idField, ''c''), (firstNameField, ''Cy'')]]\<rparr> []
     = Inr \<lparr>Page = 1, RPP = 3, Payload = Some []\<rparr>"
proof -
  let ?payload = "[StructVal [(idField, ''a''), (firstNameField, ''Ann'')],
        StructVal [(idField, ''b''), (firstNameField, ''Bob'')],
        StructVal [(idField, ''c''), (firstNameField, ''Cy'')]]"
  let ?r = "\<lparr>Page = 1, RPP = 3, Payload = Some ?payload\<rparr>"
  have p: "Payload ?r = Some ?payload" by simp
  have ne: "?payload \<noteq> []" by simp
  have wt: "well_typed userT ?payload" by (simp add: well_typed_def)
  have f: "[''unknown_a'', ''unknown_b''] \<noteq> []" by simp
  have a: "Trim ''unknown_a'' cutset \<notin> tagValue ` set [idField, firstNameField]"
    by (simp add: Trim_def cutset_def tagValue_def SplitComma0_def)
  have b: "Trim ''unknown_b'' cutset \<notin> tagValue ` set [idField, firstNameField]"
    by (simp add: Trim_def cutset_def tagValue_def SplitComma0_def)
  have u: "\<forall>raw\<in>set [''unknown_a'', ''unknown_b''].
             Trim raw cutset = [] \<or> Trim raw cutset \<notin> tagValue ` set [idField, firstNameField]"
    using a b by simp
  from unresolved_names_give_empty_records [OF p ne wt f u] wt a b
  show ?thesis by (simp add: numeral_3_eq_3)
qed

subsection \<open>Chunk planning\<close>




subsection \<open>Field resolution\<close>

text \<open>
  Claim C5. For a struct type, \<open>sanitizeFields\<close> returns what the specification words:
  every raw name is trimmed of newline, bell, backspace, form feed, carriage return, tab,
  vertical tab and space at both ends; empty names are dropped; each remaining name, at
  its first occurrence, is looked up in the declared fields in declaration order, and the
  first field whose \<open>json\<close> alias equals the name gives the descriptor (alias, field name);
  a name that matches no field gives nothing, and nothing fails. For the struct with the
  aliases \<open>id\<close> and \<open>first_name\<close>, the fields
  \<open>["first_name", "first_name ", "unknown", ""]\<close> resolve to the one descriptor of
  \<open>first_name\<close>, and a payload of three records is returned as three records
  \<open>{"first_name": value}\<close> in the original order.
\<close>

theorem struct_resolution:
  "sanitizeFields (TStruct fs) fields' = Inr (spec_resolve_struct fs fields')
   \<and> sanitizeFields userT [''first_name'', ''first_name '', ''unknown'', '''']
       = Inr [(''first_name'', ''FirstName'')]
   \<and> With userT
        \<lparr>Page = p, RPP = q, Payload = Some [StructVal [(idField, i1), (firstNameField, n1)],
            StructVal [(idField, i2), (firstNameField, n2)],
            StructVal [(idField, i3), (firstNameField, n3)]]\<rparr>
        [''first_name'', ''first_name '', ''unknown'', '''']
       = Inr \<lparr>Page = p, RPP = q,
              Payload = Some [[''first_name'' \<mapsto> n1], [''first_name'' \<mapsto> n2], [''first_name'' \<mapsto> n3]]\<rparr>"
proof (intro conjI)
  show "sanitizeFields (TStruct fs) fields' = Inr (spec_resolve_struct fs fields')"
    by (rule sanitizeFields_struct)
  show s: "sanitizeFields userT [''first_name'', ''first_name '', ''unknown'', '''']
       = Inr [(''first_name'', ''FirstName'')]"
    by (simp add: eval_defs)
  show "With userT
        \<lparr>Page = p, RPP = q, Payload = Some [StructVal [(idField, i1), (firstNameField, n1)],
            StructVal [(idField, i2), (firstNameField, n2)],
            StructVal [(idField, i3), (firstNameField, n3)]]\<rparr>
        [''first_name'', ''first_name '', ''unknown'', '''']
       = Inr \<lparr>Page = p, RPP = q,
              Payload = Some [[''first_name'' \<mapsto> n1], [''first_name'' \<mapsto> n2], [''first_name'' \<mapsto> n3]]\<rparr>"
  proof -
    let ?payload = "[StructVal [(idField, i1), (firstNameField, n1)],
            StructVal [(idField, i2), (firstNameField, n2)],
            StructVal [(idField, i3), (firstNameField, n3)]]"
    let ?r = "\<lparr>Page = p, RPP = q, Payload = Some ?payload\<rparr>"
    have "list_all2 (\<lambda>e m. transformEntry (Kind userT) [(''first_name'', ''FirstName'')] e = Inr m)
            ?payload [[''first_name'' \<mapsto> n1], [''first_name'' \<mapsto> n2], [''first_name'' \<mapsto> n3]]"
      by (simp add: transformEntry_def transformField_def FieldByName_def IsExported_def
            snake_def pascal_def)
    from With_main [where r = ?r and t = userT, OF _ _ _ _ _ s this]
    show ?thesis by simp
  qed
qed

text \<open>
  Claim C6, as the code has it. The descriptors of one resolution have pairwise
  different external names; and a raw string whose trimmed form is the external name of
  a descriptor resolved from the strings before it is skipped: the resolution is the one
  of the list without it. Names are compared as they are written, so two raw strings
  that differ in the casing of a letter are two names.
\<close>

theorem deduplication:
  "(sanitizeFields T fields' = Inr sfs \<longrightarrow> distinct (map snake sfs))
   \<and> (sanitizeFields T xs = Inr seen \<and> Trim raw cutset \<in> snake ` set seen \<longrightarrow>
        sanitizeFields T (xs @ raw # ys) = sanitizeFields T (xs @ ys))"
  using sanitizeFields_distinct sanitizeFields_skip by blast

text \<open>\<open>first_name\<close> padded with a tab, a newline and a tab, after \<open>first_name\<close>.\<close>

theorem deduplication_witness:
  "sanitizeFields userT [''first_name'', [CHR 0x09, CHR 0x0A] @ ''first_name'' @ [CHR 0x09], ''id'']
     = Inr [(''first_name'', ''FirstName''), (''id'', ''ID'')]
   \<and> distinct (map snake [(''first_name'', ''FirstName''), (''id'', ''ID'')])
   \<and> sanitizeFields userT [''first_name''] = Inr [(''first_name'', ''FirstName'')]
   \<and> Trim ([CHR 0x09, CHR 0x0A] @ ''first_name'' @ [CHR 0x09]) cutset
        \<in> snake ` set [(''first_name'', ''FirstName'')]
   \<and> sanitizeFields userT ([''first_name''] @ ([CHR 0x09, CHR 0x0A] @ ''first_name'' @ [CHR 0x09]) # [''id''])
       = sanitizeFields userT ([''first_name''] @ [''id''])"
proof -
  have a: "sanitizeFields userT [''first_name'', [CHR 0x09, CHR 0x0A] @ ''first_name'' @ [CHR 0x09], ''id'']
     = Inr [(''first_name'', ''FirstName''), (''id'', ''ID'')]"
    by (simp add: eval_defs)
  have b: "sanitizeFields userT [''first_name''] = Inr [(''first_name'', ''FirstName'')]"
    by (simp add: eval_defs)
  have c: "Trim ([CHR 0x09, CHR 0x0A] @ ''first_name'' @ [CHR 0x09]) cutset
        \<in> snake ` set [(''first_name'', ''FirstName'')]"
    by (simp add: Trim_def cutset_def snake_def)
  from deduplication [of userT _ "[(''first_name'', ''FirstName''), (''id'', ''ID'')]"
        "[''first_name'']" "[(''first_name'', ''FirstName'')]"
        "[CHR 0x09, CHR 0x0A] @ ''first_name'' @ [CHR 0x09]" "[''id'']"] a b c
  show ?thesis by blast
qed

text \<open>
  \<open>NAME\<close> after \<open>name\<close> is not skipped: on map records it gives a second descriptor, and
  so it does on a struct type that declares both aliases.
\<close>

theorem deduplication_is_case_sensitive:
  "sanitizeFields TMap [''name'', ''NAME''] = Inr [(''name'', []), (''NAME'', [])]
   \<and> sanitizeFields (TStruct [\<lparr>Name = ''A'', PkgPath = [], TagJson = ''name''\<rparr>,
                               \<lparr>Name = ''B'', PkgPath = [], TagJson = ''NAME''\<rparr>]) [''name'', ''NAME'']
      = Inr [(''name'', ''A''), (''NAME'', ''B'')]"
  by (simp add: eval_defs)

subsection \<open>Map records\<close>

text \<open>
  Claim C7, as the code has it. For map records every trimmed, non-empty name gives, at
  its first occurrence, the descriptor whose external name is the name and whose internal
  name is the empty string (lines 99--101 set the first component only), without any
  check. A record with distinct keys is projected to its restriction to the requested
  names. For two records of which only the first has the key \<open>x\<close>, the fields \<open>["x"]\<close>
  give \<open>[{"x": value}, {}]\<close>.
\<close>

theorem dynamic_records:
  "sanitizeFields TMap fields' = Inr (map (\<lambda>n. (n, [])) (firstSeen (spec_names fields')))
   \<and> (distinct (map fst kvs) \<longrightarrow>
        transformEntry Map sfs (MapVal kvs) = Inr (map_of kvs |` (snake ` set sfs)))
   \<and> (distinct (map fst kvs1) \<and> map_of kvs1 ''x'' = Some v \<and>
      distinct (map fst kvs2) \<and> map_of kvs2 ''x'' = None \<longrightarrow>
        With TMap \<lparr>Page = p, RPP = q, Payload = Some [MapVal kvs1, MapVal kvs2]\<rparr> [''x'']
          = Inr \<lparr>Page = p, RPP = q, Payload = Some [[''x'' \<mapsto> v], Map.empty]\<rparr>)"
proof (intro conjI impI)
  show "sanitizeFields TMap fields' = Inr (map (\<lambda>n. (n, [])) (firstSeen (spec_names fields')))"
    by (rule sanitizeFields_map)
  show "transformEntry Map sfs (MapVal kvs) = Inr (map_of kvs |` (snake ` set sfs))"
    if "distinct (map fst kvs)" using that by (rule transformEntry_map)
  show "With TMap \<lparr>Page = p, RPP = q, Payload = Some [MapVal kvs1, MapVal kvs2]\<rparr> [''x'']
          = Inr \<lparr>Page = p, RPP = q, Payload = Some [[''x'' \<mapsto> v], Map.empty]\<rparr>"
    if h: "distinct (map fst kvs1) \<and> map_of kvs1 ''x'' = Some v \<and>
           distinct (map fst kvs2) \<and> map_of kvs2 ''x'' = None"
  proof -
    let ?r = "\<lparr>Page = p, RPP = q, Payload = Some [MapVal kvs1, MapVal kvs2]\<rparr>"
    have s: "sanitizeFields TMap [''x''] = Inr [(''x'', [])]"
      by (simp add: eval_defs)
    have 1: "transformEntry Map [(''x'', [])] (MapVal kvs1) = Inr [''x'' \<mapsto> v]"
      by (subst transformEntry_map) (use h in \<open>simp_all add: restrict_map_def snake_def fun_eq_iff\<close>)
    have 2: "transformEntry Map [(''x'', [])] (MapVal kvs2) = Inr Map.empty"
      by (subst transformEntry_map) (use h in \<open>simp_all add: restrict_map_def snake_def fun_eq_iff\<close>)
    have "list_all2 (\<lambda>e m. transformEntry (Kind TMap) [(''x'', [])] e = Inr m)
            [MapVal kvs1, MapVal kvs2] [[''x'' \<mapsto> v], Map.empty]"
      using 1 2 by simp
    from With_main [where r = ?r and t = TMap, OF _ _ _ _ _ s this]
    show ?thesis by simp
  qed
qed

text \<open>The names \<open>x\<close>, \<open>" x"\<close> and \<open>y\<close>; the records \<open>{"x": 1, "z": 2}\<close> and \<open>{"z": 3}\<close>.\<close>

theorem dynamic_records_witness:
  "sanitizeFields TMap [''x'', '' x'', ''y''] = Inr [(''x'', []), (''y'', [])]
   \<and> distinct (map fst [(''x'', 1::nat), (''z'', 2)])
   \<and> transformEntry Map [(''x'', []), (''y'', [])] (MapVal [(''x'', 1::nat), (''z'', 2)])
       = Inr [''x'' \<mapsto> 1]
   \<and> map_of [(''x'', 1::nat), (''z'', 2)] ''x'' = Some 1
   \<and> distinct (map fst [(''z'', 3::nat)]) \<and> map_of [(''z'', 3::nat)] ''x'' = None
   \<and> With TMap \<lparr>Page = 1, RPP = 2,
         Payload = Some [MapVal [(''x'', 1::nat), (''z'', 2)], MapVal [(''z'', 3)]]\<rparr> [''x'']
       = Inr \<lparr>Page = 1, RPP = 2, Payload = Some [[''x'' \<mapsto> 1], Map.empty]\<rparr>"
proof -
  have n: "firstSeen (spec_names [''x'', '' x'', ''y'']) = [''x'', ''y'']"
    by (simp add: spec_names_def Trim_def cutset_def)
  have r: "map_of [(''x'', 1::nat), (''z'', 2)] |` (snake ` set [(''x'', []), (''y'', [])]) = [''x'' \<mapsto> 1]"
    by (simp add: restrict_map_def snake_def fun_eq_iff)
  have d: "distinct (map fst [(''x'', 1::nat), (''z'', 2)])" by simp
  have d2: "distinct (map fst [(''z'', 3::nat)]) \<and> map_of [(''z'', 3::nat)] ''x'' = None" by simp
  have m: "map_of [(''x'', 1::nat), (''z'', 2)] ''x'' = Some 1" by simp
  from dynamic_records [of "[''x'', '' x'', ''y'']" "[(''x'', 1::nat), (''z'', 2)]"
         "[(''x'', []), (''y'', [])]" "[(''x'', 1::nat), (''z'', 2)]" 1 "[(''z'', 3)]" 1 2]
  have "sanitizeFields TMap [''x'', '' x'', ''y''] = Inr [(''x'', []), (''y'', [])]"
    and "transformEntry Map [(''x'', []), (''y'', [])] (MapVal [(''x'', 1::nat), (''z'', 2)])
       = Inr [''x'' \<mapsto> 1]"
    and "With TMap \<lparr>Page = 1, RPP = 2,
         Payload = Some [MapVal [(''x'', 1::nat), (''z'', 2)], MapVal [(''z'', 3)]]\<rparr> [''x'']
       = Inr \<lparr>Page = 1, RPP = 2, Payload = Some [[''x'' \<mapsto> 1], Map.empty]\<rparr>"
    unfolding n r using d d2 m by simp_all
  with d d2 m show ?thesis by blast
qed

text \<open>The descriptor of \<open>x\<close> on map records is \<open>("x", "")\<close>, not \<open>("x", "x")\<close>.\<close>

theorem dynamic_descriptor_has_empty_internal_name:
  "sanitizeFields TMap [''x''] = Inr [(''x'', [])]
   \<and> sanitizeFields TMap [''x''] \<noteq> Inr [(''x'', ''x'')]"
  by (simp add: eval_defs)

subsection \<open>Panics\<close>

text \<open>
  Claim C8 does not hold of the code. \<open>With\<close> panics on a \<open>Result[any]\<close> whose first
  element is nil (\<open>reflect.TypeOf\<close> returns nil at line 153 and \<open>Kind\<close> is called on it), on
  a \<open>Result[any]\<close> whose first element is a struct (line 73 takes the type of the nil
  zero value of \<open>any\<close>), and on a struct type with an unexported field whose alias is
  requested (\<open>Interface()\<close> at line 131).
\<close>

theorem With_panics:
  "With TInterface \<lparr>Page = 1, RPP = 1, Payload = Some [NilInterface :: string govalue]\<rparr> [''id'']
     = Inl NilPointerDereference
   \<and> With TInterface \<lparr>Page = 1, RPP = 1, Payload = Some [StructVal [(idField, ''a'')]]\<rparr> [''id'']
     = Inl NilPointerDereference
   \<and> With (TStruct [\<lparr>Name = ''name'', PkgPath = ''main'', TagJson = ''name''\<rparr>])
        \<lparr>Page = 1, RPP = 1,
         Payload = Some [StructVal [(\<lparr>Name = ''name'', PkgPath = ''main'', TagJson = ''name''\<rparr>, ''a'')]]\<rparr>
        [''name'']
     = Inl InterfaceOfUnexportedField"
  by (simp add: eval_defs)

subsection \<open>Struct records have the same keys\<close>

text \<open>
  Claim C9 does not hold of the code for every struct type. For \<open>secretT\<close> the name
  \<open>secret\<close> resolves to the descriptor of the declared field \<open>secret\<close>, and \<open>FieldByName\<close>
  finds that field in the record, so the lookup is valid; but no key is written:
  \<open>Interface()\<close> at line 131 panics on the value of an unexported field, and \<open>With\<close>
  returns no record. What holds of every struct type, and of the struct types read
  without that panic, is \<open>struct_descriptors_declared\<close>, \<open>struct_lookup_found\<close> and
  \<open>struct_records_same_keys\<close>.
\<close>

theorem struct_lookup_valid_but_no_key_written:
  "sanitizeFields secretT [''secret''] = Inr [(''secret'', ''secret'')]
   \<and> FieldByName [(idField, ''a''), (secretField, ''s'')] (pascal (''secret'', ''secret''))
       = Some (secretField, ''s'')
   \<and> transformEntry Struct [(''secret'', ''secret'')]
        (StructVal [(idField, ''a''), (secretField, ''s'')]) = Inl InterfaceOfUnexportedField
   \<and> With secretT
        \<lparr>Page = 1, RPP = 1, Payload = Some [StructVal [(idField, ''a''), (secretField, ''s'')]]\<rparr>
        [''secret'']
      = Inl InterfaceOfUnexportedField"
  by (simp add: eval_defs)

subsection \<open>Records of an unsupported shape\<close>

text \<open>
  Claim C10. When the payload is not empty and the dynamic type of its first element
  has a kind that is neither struct nor map, \<open>With\<close> returns without a panic, for every
  record type and every field list, the original \<open>Page\<close> and \<open>RPP\<close> and a payload that is
  empty and not nil.
\<close>

theorem With_unsupported_shape:
  assumes "Payload r = Some payload" and "payload \<noteq> []"
      and "TypeOf (payload ! 0) = Some t" and "Kind t \<noteq> Struct" and "Kind t \<noteq> Map"
  shows "With T r fields' = Inr \<lparr>Page = Page r, RPP = RPP r, Payload = Some []\<rparr>"
  using assms by (rule With_unsupported)

text \<open>A payload \<open>[]*User\<close> of one pointer, with a field list that is not empty.\<close>

theorem With_unsupported_shape_witness:
  "Payload \<lparr>Page = 2, RPP = 5, Payload = Some [OtherVal (TPointer (TStruct [])) :: nat govalue]\<rparr>
     = Some [OtherVal (TPointer (TStruct []))]
   \<and> [OtherVal (TPointer (TStruct [])) :: nat govalue] \<noteq> []
   \<and> TypeOf ([OtherVal (TPointer (TStruct [])) :: nat govalue] ! 0) = Some (TPointer (TStruct []))
   \<and> Kind (TPointer (TStruct [])) \<noteq> Struct \<and> Kind (TPointer (TStruct [])) \<noteq> Map
   \<and> With (TPointer (TStruct []))
        \<lparr>Page = 2, RPP = 5, Payload = Some [OtherVal (TPointer (TStruct [])) :: nat govalue]\<rparr>
        [''first_name'']
     = Inr \<lparr>Page = 2, RPP = 5, Payload = Some []\<rparr>"
  using With_unsupported_shape
    [of "\<lparr>Page = 2, RPP = 5, Payload = Some [OtherVal (TPointer (TStruct [])) :: nat govalue]\<rparr>"
        "[OtherVal (TPointer (TStruct []))]" "TPointer (TStruct [])"
        "TPointer (TStruct [])" "[''first_name'']"]
  by simp

end
